theory Spec2Isabelle
  imports Complex_Main
begin

section \<open>JavaScript string primitives used by the card parsers\<close>

text \<open>
  The parsers of \<^verbatim>\<open>parsers.js\<close> work on JavaScript strings with \<^verbatim>\<open>includes\<close>,
  \<^verbatim>\<open>split\<close>, \<^verbatim>\<open>find\<close>, \<^verbatim>\<open>startsWith\<close>, \<^verbatim>\<open>slice\<close>, \<^verbatim>\<open>padStart\<close>
  and two regular expressions. A string is modelled as a \<^typ>\<open>string\<close> (a list of characters,
  one per code unit); \<^verbatim>\<open>null\<close> and \<^verbatim>\<open>undefined\<close> are \<^term>\<open>None\<close>. None of these
  primitives throws on a string argument, so the parsers have no error branch.
\<close>

definition is_digit :: "char \<Rightarrow> bool" where
  \<comment> \<open>the class \<^verbatim>\<open>\d\<close> of a regular expression without the unicode flag: 0 to 9\<close>
  "is_digit c = (c \<in> set ''0123456789'')"

definition test_digits :: "string \<Rightarrow> bool" where
  \<comment> \<open>\<^verbatim>\<open>/^\d+$/.test(s)\<close>: one or more digits and nothing else\<close>
  "test_digits s = (s \<noteq> [] \<and> list_all is_digit s)"

definition includes_js :: "string \<Rightarrow> char \<Rightarrow> bool" where
  \<comment> \<open>\<^verbatim>\<open>s.includes(c)\<close> for a one-character needle\<close>
  "includes_js s c = (c \<in> set s)"

fun split_js :: "char \<Rightarrow> string \<Rightarrow> string list" where
  \<comment> \<open>\<^verbatim>\<open>s.split(sep)\<close> for a one-character separator: every field, empty ones included\<close>
  "split_js sep [] = [[]]"
| "split_js sep (c # cs) =
     (if c = sep then [] # split_js sep cs
      else (case split_js sep cs of
              field # fields \<Rightarrow> (c # field) # fields
            | [] \<Rightarrow> [[c]]))"

definition startsWith :: "string \<Rightarrow> string \<Rightarrow> bool" where
  \<comment> \<open>\<^verbatim>\<open>s.startsWith(p)\<close>\<close>
  "startsWith s p = (take (length p) s = p)"

definition slice_js :: "string \<Rightarrow> int \<Rightarrow> int \<Rightarrow> string" where
  \<comment> \<open>\<^verbatim>\<open>s.slice(b, e)\<close>: a negative index counts from the end, both are clamped to the
      string, and an empty string results when the start is not before the end\<close>
  "slice_js s b e =
     (let len = int (length s);
          from = (if b < 0 then max (len + b) 0 else min b len);
          to = (if e < 0 then max (len + e) 0 else min e len)
      in take (nat (to - from)) (drop (nat from) s))"

definition padStart :: "nat \<Rightarrow> char \<Rightarrow> string \<Rightarrow> string" where
  \<comment> \<open>\<^verbatim>\<open>s.padStart(n, c)\<close> for a one-character pad: a string of length n or more is
      returned as it is\<close>
  "padStart n c s = replicate (n - length s) c @ s"

section \<open>The card parsers\<close>

definition CARD_ID_LENGTH :: nat where
  "CARD_ID_LENGTH = 9"

definition fullParser :: "string \<Rightarrow> string option" where
  "fullParser raw =
     (if \<not> includes_js raw CHR ''='' then None
      else (case find (\<lambda>s. startsWith s ''601770'') (split_js CHR ''='' raw) of
              None \<Rightarrow> None
            | Some seg \<Rightarrow>
                if seg = [] then None
                else (let body = slice_js seg 9 (- 1)
                      in if body = [] \<or> \<not> test_digits body then None
                         else Some (padStart CARD_ID_LENGTH CHR ''0'' body))))"

definition mobileParser :: "string \<Rightarrow> string option" where
  \<comment> \<open>\<^verbatim>\<open>/^601770\d{10}$/.test(raw)\<close>\<close>
  "mobileParser raw =
     (if take 6 raw = ''601770'' \<and> length (drop 6 raw) = 10 \<and> list_all is_digit (drop 6 raw)
      then Some raw else None)"

definition shortParser :: "string \<Rightarrow> string option" where
  "shortParser raw =
     (if test_digits raw \<and> length raw \<le> CARD_ID_LENGTH
      then Some (padStart CARD_ID_LENGTH CHR ''0'' raw) else None)"

definition builtinParsers :: "(string \<Rightarrow> string option) list" where
  "builtinParsers = [fullParser, mobileParser, shortParser]"

fun createCardParser :: "(string \<Rightarrow> string option) list \<Rightarrow> string \<Rightarrow> string option" where
  \<comment> \<open>the loop over the parsers: the first result that is not \<^verbatim>\<open>null\<close> is returned\<close>
  "createCardParser [] raw = None"
| "createCardParser (parser # parsers) raw =
     (case parser raw of Some result \<Rightarrow> Some result | None \<Rightarrow> createCardParser parsers raw)"

definition parseCardData :: "string \<Rightarrow> string option" where
  "parseCardData = createCardParser builtinParsers"

section \<open>Configuration and JavaScript truthiness\<close>

text \<open>
  The object returned by \<^verbatim>\<open>loadConfig\<close>. A field that may be \<^verbatim>\<open>null\<close> is an option.
  The baud rate and the two delays are whole numbers. \<^verbatim>\<open>loadConfig\<close> passes every number
  of \<^verbatim>\<open>config.json\<close> other than 0 on as \<^verbatim>\<open>sendRetries\<close>, whole or not, so that field
  holds the exact value of the number, a rational; \<^verbatim>\<open>attempt < config.sendRetries\<close> is
  then the order of the rationals.
\<close>

record config =
  serialPath :: "string option"
  vendorId :: "string option"
  productId :: "string option"
  baudRate :: int
  endpoint :: string
  authToken :: "string option"
  deviceName :: string
  reconnectInterval :: int
  sendRetries :: rat
  sendRetryDelay :: int

definition truthy :: "string option \<Rightarrow> bool" where
  \<comment> \<open>a string or \<^verbatim>\<open>null\<close> in a condition: \<^verbatim>\<open>null\<close> and the empty string are falsy\<close>
  "truthy v = (case v of None \<Rightarrow> False | Some s \<Rightarrow> s \<noteq> [])"

definition or_empty :: "string option \<Rightarrow> string" where
  \<comment> \<open>\<^verbatim>\<open>v || ""\<close>\<close>
  "or_empty v = (case v of None \<Rightarrow> [] | Some s \<Rightarrow> s)"

definition toLowerChar :: "char \<Rightarrow> char" where
  "toLowerChar c =
     (case map_of (zip ''ABCDEFGHIJKLMNOPQRSTUVWXYZ'' ''abcdefghijklmnopqrstuvwxyz'') c of
        Some l \<Rightarrow> l
      | None \<Rightarrow> c)"

definition toLowerCase :: "string \<Rightarrow> string" where
  \<comment> \<open>\<^verbatim>\<open>s.toLowerCase()\<close> on the ASCII letters, which is all a hexadecimal identifier has\<close>
  "toLowerCase s = map toLowerChar s"

section \<open>Serial device discovery\<close>

text \<open>
  \<^verbatim>\<open>discoverLinuxPorts\<close> and \<^verbatim>\<open>discoverMacPorts\<close> read the host's device tree; their
  result, the list of enumerated ports in enumeration order, is a parameter of
  \<^verbatim>\<open>findSerialPath\<close>. The function returns the lines it logs and the path, \<^term>\<open>None\<close>
  for \<^verbatim>\<open>null\<close>; \<open>single\<close> is the end of the function, which is reached when there is
  no filter and when the filter matches no port.
\<close>

record port_info =
  path :: string
  port_vendorId :: "string option"
  port_productId :: "string option"

datatype discovery_log = MultipleMatchingPorts nat

definition port_filter :: "string option \<Rightarrow> string option \<Rightarrow> port_info \<Rightarrow> bool" where
  \<comment> \<open>the callback of \<^verbatim>\<open>ports.filter\<close>\<close>
  "port_filter wantVid wantPid p =
     (let vid = toLowerCase (or_empty (port_vendorId p));
          pid = toLowerCase (or_empty (port_productId p))
      in if truthy wantVid \<and> Some vid \<noteq> wantVid then False
         else if truthy wantPid \<and> Some pid \<noteq> wantPid then False
         else True)"

definition findSerialPath :: "config \<Rightarrow> port_info list \<Rightarrow> discovery_log list \<times> string option" where
  "findSerialPath config ports =
     (if truthy (serialPath config) then ([], serialPath config)
      else
        (let wantVid = (if truthy (vendorId config)
                        then map_option toLowerCase (vendorId config) else None);
             wantPid = (if truthy (productId config)
                        then map_option toLowerCase (productId config) else None);
             single = (if length ports = 1 then ([], Some (path (ports ! 0))) else ([], None))
         in if truthy wantVid \<or> truthy wantPid
            then (let matching = filter (port_filter wantVid wantPid) ports
                  in if length matching \<ge> 1
                     then (if length matching > 1
                           then [MultipleMatchingPorts (length matching)] else [],
                           Some (path (matching ! 0)))
                     else single)
            else single))"

section \<open>The reconnect timer\<close>

text \<open>
  The state the connection manager owns: the open port (\<^verbatim>\<open>port\<close> in \<^verbatim>\<open>index.js\<close>,
  \<^verbatim>\<open>stream\<close> in the variant that reads the device file), the variable
  \<^verbatim>\<open>reconnectTimer\<close>, and the runtime's table of the timers that \<^verbatim>\<open>setTimeout\<close> has
  armed for \<^verbatim>\<open>connectScanner\<close> and that have neither fired nor been cleared, each with
  its delay.
\<close>

record conn_state =
  port :: "string option"
  reconnectTimer :: "nat option"
  timers :: "(nat \<times> int) list"
  next_timer :: nat
  exited :: bool

definition setTimeout :: "int \<Rightarrow> conn_state \<Rightarrow> nat \<times> conn_state" where
  \<comment> \<open>arms a timer under a fresh identifier and returns the identifier\<close>
  "setTimeout delay st =
     (next_timer st,
      st\<lparr>timers := timers st @ [(next_timer st, delay)], next_timer := Suc (next_timer st)\<rparr>)"

definition clearTimeout :: "nat option \<Rightarrow> conn_state \<Rightarrow> conn_state" where
  \<comment> \<open>disarms the timer of that identifier; \<^verbatim>\<open>null\<close> or a timer no longer pending is a no-op\<close>
  "clearTimeout t st = st\<lparr>timers := filter (\<lambda>(i, d). Some i \<noteq> t) (timers st)\<rparr>"

definition arm_reconnect :: "config \<Rightarrow> conn_state \<Rightarrow> conn_state" where
  \<comment> \<open>\<^verbatim>\<open>reconnectTimer = setTimeout(connectScanner, config.reconnectInterval)\<close>\<close>
  "arm_reconnect config st =
     (case setTimeout (reconnectInterval config) st of
        (t, st') \<Rightarrow> st'\<lparr>reconnectTimer := Some t\<rparr>)"

definition connectScanner :: "config \<Rightarrow> string option \<Rightarrow> conn_state \<Rightarrow> conn_state" where
  \<comment> \<open>\<^verbatim>\<open>index.js\<close>; the second argument is what \<^verbatim>\<open>findSerialPath\<close> returned. A failure
      of \<^verbatim>\<open>port.open\<close> arrives later, in its callback.\<close>
  "connectScanner config devicePath st =
     (let st1 = clearTimeout (reconnectTimer st) st
      in if \<not> truthy devicePath then arm_reconnect config st1
         else st1\<lparr>port := devicePath\<rparr>)"

definition connectScanner_stream ::
    "config \<Rightarrow> string option \<Rightarrow> bool \<Rightarrow> conn_state \<Rightarrow> conn_state" where
  \<comment> \<open>the variant that configures the device with \<^verbatim>\<open>stty\<close> and reads it as a file; the
      third argument tells whether \<^verbatim>\<open>configurePort\<close> returned without throwing\<close>
  "connectScanner_stream config devicePath configured st =
     (let st1 = clearTimeout (reconnectTimer st) st
      in if \<not> truthy devicePath then arm_reconnect config st1
         else if \<not> configured then arm_reconnect config st1
         else st1\<lparr>port := devicePath\<rparr>)"

definition scheduleReconnect :: "config \<Rightarrow> conn_state \<Rightarrow> conn_state" where
  "scheduleReconnect config st =
     (let st1 = (if port st \<noteq> None then st\<lparr>port := None\<rparr> else st);
          st2 = clearTimeout (reconnectTimer st1) st1
      in arm_reconnect config st2)"

definition shutdown :: "conn_state \<Rightarrow> conn_state" where
  "shutdown st = (clearTimeout (reconnectTimer st) st)\<lparr>exited := True\<rparr>"

datatype conn_event =
    TimerFires nat "string option"
  | TimerFiresStream nat "string option" bool
  | OpenFailed
  | ReadError
  | StreamClose
  | Signal

definition fire :: "nat \<Rightarrow> conn_state \<Rightarrow> conn_state" where
  \<comment> \<open>a timer that fires leaves the table of pending timers\<close>
  "fire t st = st\<lparr>timers := filter (\<lambda>(i, d). i \<noteq> t) (timers st)\<rparr>"

fun conn_step :: "config \<Rightarrow> conn_event \<Rightarrow> conn_state \<Rightarrow> conn_state option" where
  \<comment> \<open>one callback of the event loop; \<^term>\<open>None\<close> when the event cannot happen in that state\<close>
  "conn_step config (TimerFires t dev) st =
     (if exited st \<or> t \<notin> fst ` set (timers st) then None
      else Some (connectScanner config dev (fire t st)))"
| "conn_step config (TimerFiresStream t dev ok) st =
     (if exited st \<or> t \<notin> fst ` set (timers st) then None
      else Some (connectScanner_stream config dev ok (fire t st)))"
| "conn_step config OpenFailed st =
     (if exited st then None else Some (scheduleReconnect config st))"
| "conn_step config ReadError st =
     (if exited st then None else Some (scheduleReconnect config st))"
| "conn_step config StreamClose st =
     (if exited st then None else Some (scheduleReconnect config st))"
| "conn_step config Signal st =
     (if exited st then None else Some (shutdown st))"

definition conn_init :: conn_state where
  "conn_init = \<lparr>port = None, reconnectTimer = None, timers = [], next_timer = 0, exited = False\<rparr>"

inductive reachable :: "config \<Rightarrow> conn_state \<Rightarrow> bool" for config where
  start: "reachable config (connectScanner config dev conn_init)"
| start_stream: "reachable config (connectScanner_stream config dev ok conn_init)"
| step: "reachable config st \<Longrightarrow> conn_step config ev st = Some st' \<Longrightarrow> reachable config st'"

section \<open>Delivery with retries\<close>

text \<open>
  \<^verbatim>\<open>sendToServer\<close> writes one POST request and returns; \<^verbatim>\<open>retry\<close> is called from two
  callbacks only, the \<^verbatim>\<open>end\<close> of a response and the \<^verbatim>\<open>error\<close> of the request, and it
  arms a timer that calls \<^verbatim>\<open>sendToServer\<close> again. The model runs the callbacks of one scan
  in the order they happen and returns what they do, as a list.

  The network is a parameter. For the request of each attempt number it gives what comes
  back: a whole response with its status, an error of the request, a response whose
  connection closes after the status and the headers and before its end, or nothing at all.
  In the last two cases neither callback runs: the response has no \<^verbatim>\<open>error\<close> listener, and
  the request emits no \<^verbatim>\<open>error\<close> once a response has begun. The parameter also tells
  whether \<^verbatim>\<open>new URL(config.endpoint)\<close> and \<^verbatim>\<open>transport.request\<close> return; when one of
  them throws, no request is written.
\<close>

record scan =
  scan_id :: string
  scan_data :: string
  scan_timestamp :: string

datatype response =
    Status int
  | NetworkError string
  | Truncated int
  | NoAnswer

record network =
  request_ok :: bool
  answer :: "int \<Rightarrow> response"

datatype delivery_event =
    Throws
  | Post scan int
  | LogPostOK int
  | LogPostFailed int
  | LogPostError string
  | LogRetrying int rat
  | Wait int
  | LogGaveUp rat

function sendToServer :: "config \<Rightarrow> network \<Rightarrow> scan \<Rightarrow> int \<Rightarrow> delivery_event list"
  and retry :: "config \<Rightarrow> network \<Rightarrow> scan \<Rightarrow> int \<Rightarrow> delivery_event list" where
  "sendToServer config net scan attempt =
     (if \<not> request_ok net then [Throws]
      else Post scan attempt #
        (case answer net attempt of
           Status code \<Rightarrow>
             if 200 \<le> code \<and> code < 300 then [LogPostOK code]
             else LogPostFailed code # retry config net scan attempt
         | NetworkError msg \<Rightarrow> LogPostError msg # retry config net scan attempt
         | Truncated code \<Rightarrow> []
         | NoAnswer \<Rightarrow> []))"
| "retry config net scan attempt =
     (if of_int attempt < sendRetries config
      then LogRetrying (attempt + 1) (sendRetries config) # Wait (sendRetryDelay config) #
           sendToServer config net scan (attempt + 1)
      else [LogGaveUp (sendRetries config)])"
  by pat_completeness auto
termination
  by (relation "measure (\<lambda>x. case x of
        Inl (c, n, s, a) \<Rightarrow> 2 * nat (\<lceil>sendRetries c\<rceil> - a) + 1
      | Inr (c, n, s, a) \<Rightarrow> 2 * nat (\<lceil>sendRetries c\<rceil> - a))")
     (auto simp: less_ceiling_iff [symmetric])

declare sendToServer.simps [simp del] retry.simps [simp del]

fun is_post :: "delivery_event \<Rightarrow> bool" where
  "is_post (Post s a) = True"
| "is_post e = False"

definition attempts :: "delivery_event list \<Rightarrow> nat" where
  \<comment> \<open>the number of requests written\<close>
  "attempts tr = length (filter is_post tr)"

definition retried :: "response \<Rightarrow> bool" where
  \<comment> \<open>the answers after which the code calls \<^verbatim>\<open>retry\<close>: a whole response with a status
      outside 200 to 299, and an error of the request\<close>
  "retried r =
     (case r of
        Status code \<Rightarrow> \<not> (200 \<le> code \<and> code < 300)
      | NetworkError msg \<Rightarrow> True
      | Truncated code \<Rightarrow> False
      | NoAnswer \<Rightarrow> False)"

definition answer_log :: "response \<Rightarrow> delivery_event list" where
  \<comment> \<open>what the callbacks log for an answer\<close>
  "answer_log r =
     (case r of
        Status code \<Rightarrow>
          if 200 \<le> code \<and> code < 300 then [LogPostOK code] else [LogPostFailed code]
      | NetworkError msg \<Rightarrow> [LogPostError msg]
      | Truncated code \<Rightarrow> []
      | NoAnswer \<Rightarrow> [])"

section \<open>The update supervisor\<close>

text \<open>
  The files the updater touches are the version marker \<^verbatim>\<open>.version\<close> (\<^term>\<open>None\<close> when the
  file cannot be read) and the source directory. What the network and the file system answer
  is a parameter of each run: the result of \<^verbatim>\<open>fetchRemoteVersion\<close>, what
  \<^verbatim>\<open>applyUpdate\<close> does to the source directory and whether it ends in its \<^verbatim>\<open>catch\<close>,
  and whether \<^verbatim>\<open>writeFileSync\<close> on the marker returns; a write that throws is taken to
  leave the marker as it was.
\<close>

datatype upd_log =
    UpdateAvailable
  | UpdateFailed string
  | UpdateApplied
  | UpdateCheckError
  | VersionRecorded
  | AutoUpdaterEnabled

record 'src upd_state =
  version_file :: "string option"
  src_dir :: 'src
  upd_log :: "upd_log list"
  upd_exited :: bool

datatype 'src apply_outcome = Applied 'src | ApplyFailed 'src string

record 'src upd_env =
  remote :: "string option"
  outcome :: "'src apply_outcome"
  write_ok :: bool

definition is_space :: "char \<Rightarrow> bool" where
  "is_space c = (c \<in> set [CHR 0x20, CHR 0x09, CHR 0x0A, CHR 0x0B, CHR 0x0C, CHR 0x0D])"

definition trim_js :: "string \<Rightarrow> string" where
  \<comment> \<open>\<^verbatim>\<open>s.trim()\<close> on the ASCII white space\<close>
  "trim_js s = rev (dropWhile is_space (rev (dropWhile is_space s)))"

definition getLocalVersion :: "'src upd_state \<Rightarrow> string option" where
  "getLocalVersion st = map_option trim_js (version_file st)"

definition applyUpdate :: "'src apply_outcome \<Rightarrow> 'src upd_state \<Rightarrow> bool \<times> 'src upd_state" where
  "applyUpdate out st =
     (case out of
        Applied files \<Rightarrow> (True, st\<lparr>src_dir := files\<rparr>)
      | ApplyFailed files msg \<Rightarrow>
          (False, st\<lparr>src_dir := files, upd_log := upd_log st @ [UpdateFailed msg]\<rparr>))"

definition checkForUpdates :: "'src upd_env \<Rightarrow> 'src upd_state \<Rightarrow> 'src upd_state" where
  "checkForUpdates env st =
     (let remoteSha = remote env
      in if \<not> truthy remoteSha then st
         else
           (let localSha = getLocalVersion st
            in if remoteSha = localSha then st
               else
                 (let st1 = st\<lparr>upd_log := upd_log st @ [UpdateAvailable]\<rparr>
                  in case applyUpdate (outcome env) st1 of
                       (True, st2) \<Rightarrow>
                         if write_ok env
                         then st2\<lparr>version_file := remoteSha,
                                  upd_log := upd_log st2 @ [UpdateApplied],
                                  upd_exited := True\<rparr>
                         else st2\<lparr>upd_log := upd_log st2 @ [UpdateCheckError]\<rparr>
                     | (False, st2) \<Rightarrow> st2)))"

definition startUpdateLoop :: "'src upd_env \<Rightarrow> 'src upd_state \<Rightarrow> 'src upd_state" where
  \<comment> \<open>with the callback of the first fetch, which runs after the function has returned\<close>
  "startUpdateLoop env st =
     (let missing = \<not> truthy (getLocalVersion st);
          st1 = st\<lparr>upd_log := upd_log st @ [AutoUpdaterEnabled]\<rparr>
      in if missing \<and> truthy (remote env) \<and> write_ok env
         then st1\<lparr>version_file := remote env, upd_log := upd_log st1 @ [VersionRecorded]\<rparr>
         else st1)"

datatype 'src upd_event = Startup "'src upd_env" | IntervalTick "'src upd_env"

fun upd_step :: "'src upd_event \<Rightarrow> 'src upd_state \<Rightarrow> 'src upd_state" where
  \<comment> \<open>nothing runs once the process has exited\<close>
  "upd_step (Startup env) st = (if upd_exited st then st else startUpdateLoop env st)"
| "upd_step (IntervalTick env) st = (if upd_exited st then st else checkForUpdates env st)"

section \<open>The three card formats in the words of the specification\<close>

text \<open>
  The formats as the specification describes them, to be compared with the parsers above.
  Delimited: the line has a field separator, and the first field that begins with the issuer
  prefix, without its first nine characters and its last one, is a non-empty decimal string.
  Long numeric: sixteen decimal digits that begin with the issuer prefix. Short numeric: one
  to nine decimal digits.
\<close>

definition delimited_match :: "string \<Rightarrow> bool" where
  "delimited_match raw =
     (CHR ''='' \<in> set raw \<and>
      (case find (\<lambda>f. take 6 f = ''601770'') (split_js CHR ''='' raw) of
         None \<Rightarrow> False
       | Some f \<Rightarrow> butlast (drop 9 f) \<noteq> [] \<and> list_all is_digit (butlast (drop 9 f))))"

definition long_numeric_match :: "string \<Rightarrow> bool" where
  "long_numeric_match raw =
     (length raw = 16 \<and> list_all is_digit raw \<and> take 6 raw = ''601770'')"

definition short_numeric_match :: "string \<Rightarrow> bool" where
  "short_numeric_match raw = (1 \<le> length raw \<and> length raw \<le> 9 \<and> list_all is_digit raw)"

section \<open>Definitions used to state the properties\<close>

text \<open>
  The configuration that the installer writes when every prompt is answered with its default:
  no serial path, no identifier filter, and the retry and reconnect settings of its
  \<^verbatim>\<open>config.json\<close> template.
\<close>

definition installed_config :: config where
  "installed_config =
     \<lparr>serialPath = None, vendorId = None, productId = None, baudRate = 9600,
      endpoint = ''https://your-api.com/scan'', authToken = None,
      deviceName = ''hums-dcs-s116'', reconnectInterval = 5000, sendRetries = 3,
      sendRetryDelay = 2000\<rparr>"

text \<open>
  A port matches the configured filter when each identifier that the configuration gives
  equals the port's identifier up to the case of the letters.
\<close>

definition ids_match :: "config \<Rightarrow> port_info \<Rightarrow> bool" where
  "ids_match config p =
     ((truthy (vendorId config) \<longrightarrow>
         toLowerCase (or_empty (port_vendorId p)) = toLowerCase (or_empty (vendorId config)))
      \<and> (truthy (productId config) \<longrightarrow>
         toLowerCase (or_empty (port_productId p)) = toLowerCase (or_empty (productId config))))"

text \<open>
  The invariant of the reconnect timer: no timer is pending, or the only pending timer is the
  one that \<^verbatim>\<open>reconnectTimer\<close> holds, armed with the reconnect interval.
\<close>

definition timer_inv :: "config \<Rightarrow> conn_state \<Rightarrow> bool" where
  "timer_inv config st =
     (timers st = [] \<or>
      (\<exists>t. reconnectTimer st = Some t \<and> timers st = [(t, reconnectInterval config)]))"

text \<open>A network that gives the same answer to every request.\<close>

definition answer_all :: "response \<Rightarrow> int \<Rightarrow> response" where
  "answer_all r attempt = r"

text \<open>What one failed attempt that is followed by a retry does.\<close>

definition failing_round ::
    "config \<Rightarrow> network \<Rightarrow> scan \<Rightarrow> int \<Rightarrow> delivery_event list" where
  "failing_round config net scan k =
     Post scan k # answer_log (answer net k) @
     [LogRetrying (k + 1) (sendRetries config), Wait (sendRetryDelay config)]"

section \<open>Properties of the string primitives\<close>

lemma split_js_not_Nil: "split_js sep s \<noteq> []"
  by (induction s) (auto split: list.splits)

text \<open>No field holds the separator, and the fields joined by it give the line back.\<close>

lemma split_js_no_sep: "f \<in> set (split_js sep s) \<Longrightarrow> sep \<notin> set f"
  by (induction s arbitrary: f) (auto split: list.splits if_splits)

lemma split_js_join: "concat (map (\<lambda>f. sep # f) (split_js sep s)) = sep # s"
  by (induction s) (auto split: list.splits simp: split_js_not_Nil)

lemma split_js_single: "sep \<notin> set s \<Longrightarrow> split_js sep s = [s]"
  by (induction s) auto

text \<open>\<^verbatim>\<open>seg.slice(9, -1)\<close> drops the first nine characters and the last one.\<close>

lemma slice_js_9_m1: "slice_js seg 9 (- 1) = butlast (drop 9 seg)"
proof (cases "10 \<le> length seg")
  case True
  then have "slice_js seg 9 (- 1) = take (length seg - 10) (drop 9 seg)"
    by (simp add: slice_js_def Let_def nat_diff_distrib')
  also have "\<dots> = butlast (drop 9 seg)"
    using True by (simp add: butlast_conv_take)
  finally show ?thesis .
next
  case False
  then have "drop 9 seg = [] \<or> (\<exists>c. drop 9 seg = [c])"
    by (cases "drop 9 seg") (auto simp: not_le dest!: arg_cong[where f=length])
  moreover have "slice_js seg 9 (- 1) = []"
    using False by (auto simp: slice_js_def Let_def min_def max_def)
  ultimately show ?thesis by auto
qed

lemma startsWith_issuer: "startsWith s ''601770'' \<longleftrightarrow> take 6 s = ''601770''"
proof -
  have "length ''601770'' = 6" by simp
  then show ?thesis unfolding startsWith_def by (simp only:)
qed

section \<open>Properties of the card parsers\<close>

lemma createCardParser_find:
  "createCardParser ps raw =
     (case find (\<lambda>p. p raw \<noteq> None) ps of None \<Rightarrow> None | Some p \<Rightarrow> p raw)"
  by (induction ps) (auto split: option.splits)

lemma createCardParser_first_index:
  "i < length ps \<Longrightarrow> (ps ! i) raw \<noteq> None \<Longrightarrow> \<forall>j<i. (ps ! j) raw = None
     \<Longrightarrow> createCardParser ps raw = (ps ! i) raw"
proof (induction ps arbitrary: i)
  case Nil
  then show ?case by simp
next
  case (Cons p ps)
  show ?case
  proof (cases i)
    case 0
    with Cons.prems show ?thesis by (auto split: option.splits)
  next
    case (Suc k)
    with Cons.prems have "p raw = None" by auto
    moreover have "createCardParser ps raw = (ps ! k) raw"
      using Cons.prems Suc by (intro Cons.IH) auto
    ultimately show ?thesis using Suc by simp
  qed
qed

lemma parseCardData_unfold:
  "parseCardData raw =
     (case fullParser raw of Some r \<Rightarrow> Some r
      | None \<Rightarrow> (case mobileParser raw of Some r \<Rightarrow> Some r | None \<Rightarrow> shortParser raw))"
  by (simp add: parseCardData_def builtinParsers_def split: option.splits)

lemma fullParser_None_iff: "fullParser raw = None \<longleftrightarrow> \<not> delimited_match raw"
  by (auto simp: fullParser_def delimited_match_def includes_js_def startsWith_issuer
      slice_js_9_m1 test_digits_def Let_def split: option.splits)

lemma mobileParser_None_iff: "mobileParser raw = None \<longleftrightarrow> \<not> long_numeric_match raw"
proof -
  have d: "list_all is_digit ''601770''" by (simp add: is_digit_def)
  have "list_all is_digit raw \<longleftrightarrow> list_all is_digit (take 6 raw) \<and> list_all is_digit (drop 6 raw)"
    by (metis append_take_drop_id list_all_append)
  with d show ?thesis
    by (auto simp: mobileParser_def long_numeric_match_def)
qed

lemma shortParser_None_iff: "shortParser raw = None \<longleftrightarrow> \<not> short_numeric_match raw"
  by (cases raw)
    (auto simp: shortParser_def short_numeric_match_def test_digits_def CARD_ID_LENGTH_def)

text \<open>
  The formats exclude each other: a line with a separator is not a decimal string, and a
  string of sixteen digits is longer than nine.
\<close>

lemma formats_exclusive:
  "\<not> (delimited_match raw \<and> long_numeric_match raw)"
  "\<not> (delimited_match raw \<and> short_numeric_match raw)"
  "\<not> (long_numeric_match raw \<and> short_numeric_match raw)"
proof -
  have noeq: "\<not> is_digit CHR ''=''" by (simp add: is_digit_def)
  show "\<not> (delimited_match raw \<and> long_numeric_match raw)"
    using noeq by (auto simp: delimited_match_def long_numeric_match_def list_all_iff)
  show "\<not> (delimited_match raw \<and> short_numeric_match raw)"
    using noeq by (auto simp: delimited_match_def short_numeric_match_def list_all_iff)
  show "\<not> (long_numeric_match raw \<and> short_numeric_match raw)"
    by (auto simp: long_numeric_match_def short_numeric_match_def)
qed

text \<open>
  What holds of every output of the normalizer: it is a decimal string of nine characters or
  more.
\<close>

lemma normalizer_output_shape:
  assumes "parseCardData raw = Some r"
  shows "list_all is_digit r \<and> 9 \<le> length r"
proof -
  have z: "is_digit CHR ''0''" by (simp add: is_digit_def)
  have pad: "list_all is_digit b \<Longrightarrow> list_all is_digit (padStart 9 CHR ''0'' b) \<and> 9 \<le> length (padStart 9 CHR ''0'' b)" for b
    using z by (auto simp: padStart_def list_all_iff)
  have d: "list_all is_digit ''601770''" by (simp add: is_digit_def)
  have m: "list_all is_digit raw \<longleftrightarrow> list_all is_digit (take 6 raw) \<and> list_all is_digit (drop 6 raw)"
    by (metis append_take_drop_id list_all_append)
  from assms consider "fullParser raw = Some r" | "mobileParser raw = Some r" | "shortParser raw = Some r"
    by (auto simp: parseCardData_unfold split: option.splits)
  then show ?thesis
  proof cases
    case 1
    then show ?thesis
      using pad by (auto simp: fullParser_def test_digits_def CARD_ID_LENGTH_def Let_def
          split: option.splits if_splits)
  next
    case 2
    then show ?thesis
      using d m by (auto simp: mobileParser_def split: if_splits)
  next
    case 3
    then show ?thesis
      using pad by (auto simp: shortParser_def test_digits_def CARD_ID_LENGTH_def split: if_splits)
  qed
qed

text \<open>
  C1. The delimited form does not bound the length of what it returns: a field of more than
  nineteen characters that begins with the issuer prefix leaves more than nine digits, and
  \<^verbatim>\<open>padStart\<close> returns them as they are. Here the field has twenty characters and the
  normalizer returns ten digits, neither nine nor sixteen.
\<close>

theorem fullParser_long_body:
  "parseCardData ''1570=900000001=00=60177000012345678901'' = Some ''1234567890''
   \<and> length ''1234567890'' = 10"
  by code_simp

text \<open>
  C2. For a line that contains the separator: when a field begins with the issuer prefix,
  the first such field is taken, its first nine characters and its last one are dropped, and a
  remainder that is non-empty and decimal is returned with zeros added on the left up to nine
  characters. When no field has the prefix, or the remainder is empty or not decimal, the
  delimited parser returns no match and the answer is that of the mobile parser, then the short
  one. The example line of the specification gives 000111111.
\<close>

theorem fullParser_delimited:
  assumes "CHR ''='' \<in> set raw"
  shows "(case find (\<lambda>f. take 6 f = ''601770'') (split_js CHR ''='' raw) of
            None \<Rightarrow> fullParser raw = None \<and>
                    parseCardData raw =
                      (case mobileParser raw of Some r \<Rightarrow> Some r | None \<Rightarrow> shortParser raw)
          | Some f \<Rightarrow>
              (let rest = butlast (drop 9 f) in
               if rest \<noteq> [] \<and> list_all is_digit rest
               then parseCardData raw = Some (replicate (9 - length rest) CHR ''0'' @ rest)
               else fullParser raw = None \<and>
                    parseCardData raw =
                      (case mobileParser raw of Some r \<Rightarrow> Some r | None \<Rightarrow> shortParser raw)))
         \<and> parseCardData ''1570=900000001=00=6017700001111110'' = Some ''000111111''"
proof -
  have ex: "parseCardData ''1570=900000001=00=6017700001111110'' = Some ''000111111''"
    by code_simp
  have "case find (\<lambda>f. take 6 f = ''601770'') (split_js CHR ''='' raw) of
            None \<Rightarrow> fullParser raw = None \<and>
                    parseCardData raw =
                      (case mobileParser raw of Some r \<Rightarrow> Some r | None \<Rightarrow> shortParser raw)
          | Some f \<Rightarrow>
              (let rest = butlast (drop 9 f) in
               if rest \<noteq> [] \<and> list_all is_digit rest
               then parseCardData raw = Some (replicate (9 - length rest) CHR ''0'' @ rest)
               else fullParser raw = None \<and>
                    parseCardData raw =
                      (case mobileParser raw of Some r \<Rightarrow> Some r | None \<Rightarrow> shortParser raw))"
    using assms
    by (auto simp: parseCardData_unfold fullParser_def includes_js_def startsWith_issuer
      slice_js_9_m1 test_digits_def padStart_def CARD_ID_LENGTH_def Let_def split: option.splits)
  with ex show ?thesis by (rule conjI[rotated])
qed

theorem fullParser_delimited_witness:
  "CHR ''='' \<in> set ''x=6017701234567890=y''
   \<and> find (\<lambda>f. take 6 f = ''601770'') (split_js CHR ''='' ''x=6017701234567890=y'')
       = Some ''6017701234567890''
   \<and> parseCardData ''x=6017701234567890=y'' = Some ''000456789''"
proof -
  have h: "CHR ''='' \<in> set ''x=6017701234567890=y''" by simp
  have f: "find (\<lambda>f. take 6 f = ''601770'') (split_js CHR ''='' ''x=6017701234567890=y'')
             = Some ''6017701234567890''"
    by simp
  show ?thesis
    using fullParser_delimited [OF h] f h by (simp add: is_digit_def numeral_3_eq_3)
qed

text \<open>
  C3. The normalizer is the loop of \<^verbatim>\<open>createCardParser\<close> over the parsers in the order
  delimited, mobile, short. On every list of parsers the loop returns what the first parser
  that matches returns, whatever the parsers after it would return on the same line, and no
  match when none matches: a later parser is consulted only when every earlier one returned
  no match.
\<close>

theorem parseCardData_first_match:
  "parseCardData = createCardParser builtinParsers
   \<and> builtinParsers = [fullParser, mobileParser, shortParser]
   \<and> parseCardData raw =
       (case fullParser raw of Some r \<Rightarrow> Some r
        | None \<Rightarrow> (case mobileParser raw of Some r \<Rightarrow> Some r | None \<Rightarrow> shortParser raw))
   \<and> (\<forall>i<length builtinParsers.
         (builtinParsers ! i) raw \<noteq> None \<and> (\<forall>j<i. (builtinParsers ! j) raw = None)
         \<longrightarrow> parseCardData raw = (builtinParsers ! i) raw)
   \<and> ((\<forall>q\<in>set pre. q raw = None) \<and> p raw = Some r
         \<longrightarrow> createCardParser (pre @ p # post) raw = Some r)
   \<and> ((\<forall>q\<in>set ps. q raw = None) \<longrightarrow> createCardParser ps raw = None)"
proof (intro conjI allI impI)
  show "parseCardData = createCardParser builtinParsers"
    by (fact parseCardData_def)
  show "builtinParsers = [fullParser, mobileParser, shortParser]"
    by (fact builtinParsers_def)
  show "parseCardData raw =
       (case fullParser raw of Some r \<Rightarrow> Some r
        | None \<Rightarrow> (case mobileParser raw of Some r \<Rightarrow> Some r | None \<Rightarrow> shortParser raw))"
    by (fact parseCardData_unfold)
next
  fix i
  assume "i < length builtinParsers"
    and "(builtinParsers ! i) raw \<noteq> None \<and> (\<forall>j<i. (builtinParsers ! j) raw = None)"
  then show "parseCardData raw = (builtinParsers ! i) raw"
    unfolding parseCardData_def by (intro createCardParser_first_index) auto
next
  assume "(\<forall>q\<in>set pre. q raw = None) \<and> p raw = Some r"
  then show "createCardParser (pre @ p # post) raw = Some r"
    by (induction pre) auto
next
  assume "\<forall>q\<in>set ps. q raw = None"
  then show "createCardParser ps raw = None"
    by (induction ps) auto
qed

text \<open>
  A line that two parsers of the list match: the short parser, and \<^term>\<open>Some\<close>, the parser
  that accepts every line as it is. The one that stands first in the list decides.
\<close>

theorem parseCardData_first_match_witness:
  "fullParser ''111111'' = None
   \<and> shortParser ''111111'' = Some ''000111111''
   \<and> createCardParser [fullParser, shortParser, Some] ''111111'' = Some ''000111111''
   \<and> createCardParser [fullParser, Some, shortParser] ''111111'' = Some ''111111''"
proof -
  have f: "fullParser ''111111'' = None" by code_simp
  have s: "shortParser ''111111'' = Some ''000111111''" by code_simp
  from f have pre: "\<forall>q\<in>set [fullParser]. q ''111111'' = None" by simp
  from parseCardData_first_match
    [where raw = "''111111''" and pre = "[fullParser]" and p = shortParser and post = "[Some]"
       and r = "''000111111''"] pre s
  have a: "createCardParser ([fullParser] @ shortParser # [Some]) ''111111'' = Some ''000111111''"
    by blast
  from parseCardData_first_match
    [where raw = "''111111''" and pre = "[fullParser]" and p = Some and post = "[shortParser]"
       and r = "''111111''"] pre
  have b: "createCardParser ([fullParser] @ Some # [shortParser]) ''111111'' = Some ''111111''"
    by blast
  from a b f s show ?thesis by (simp del: createCardParser.simps)
qed

text \<open>
  C8. On a decimal string of one to nine characters the short parser returns the string with
  zeros added on the left up to nine characters, and so does the normalizer; the normalizer
  applied to that result returns it unchanged.
\<close>

theorem shortParser_pad_idempotent:
  assumes "1 \<le> length s" and "length s \<le> 9" and "list_all is_digit s"
  shows "shortParser s = Some (replicate (9 - length s) CHR ''0'' @ s)
       \<and> length (replicate (9 - length s) CHR ''0'' @ s) = 9
       \<and> parseCardData s = Some (replicate (9 - length s) CHR ''0'' @ s)
       \<and> parseCardData (replicate (9 - length s) CHR ''0'' @ s)
           = Some (replicate (9 - length s) CHR ''0'' @ s)"
proof -
  let ?p = "replicate (9 - length s) CHR ''0'' @ s"
  from assms have ne: "s \<noteq> []" by auto
  have z: "is_digit CHR ''0''" by (simp add: is_digit_def)
  have noeq: "\<not> is_digit CHR ''=''" by (simp add: is_digit_def)
  have len: "length ?p = 9" using assms by simp
  have dig: "list_all is_digit ?p" using assms z by (auto simp: list_all_iff)
  have eq_s: "CHR ''='' \<notin> set s" using assms(3) noeq by (auto simp: list_all_iff)
  have eq_p: "CHR ''='' \<notin> set ?p" using dig noeq by (auto simp: list_all_iff)
  have s1: "shortParser s = Some ?p"
    using assms ne by (simp add: shortParser_def test_digits_def CARD_ID_LENGTH_def padStart_def)
  have s2: "shortParser ?p = Some ?p"
    using dig len assms ne
    by (auto simp: shortParser_def test_digits_def CARD_ID_LENGTH_def padStart_def)
  have f1: "fullParser s = None" using eq_s by (simp add: fullParser_def includes_js_def)
  have f2: "fullParser ?p = None" using eq_p by (simp add: fullParser_def includes_js_def)
  have "length (drop 6 s) \<noteq> 10" using assms(2) by simp
  then have m1: "mobileParser s = None" by (simp add: mobileParser_def)
  have "length (drop 6 ?p) \<noteq> 10" using len by simp
  then have m2: "mobileParser ?p = None" by (simp add: mobileParser_def)
  show ?thesis using s1 s2 f1 f2 m1 m2 len by (simp add: parseCardData_unfold)
qed

theorem shortParser_pad_idempotent_witness:
  "shortParser ''111111'' = Some ''000111111''
   \<and> parseCardData ''111111'' = Some ''000111111''
   \<and> parseCardData ''000111111'' = Some ''000111111''"
proof -
  have h: "1 \<le> length ''111111''" "length ''111111'' \<le> 9" "list_all is_digit ''111111''"
    by (simp_all add: is_digit_def)
  have p: "replicate (9 - length ''111111'') CHR ''0'' @ ''111111'' = ''000111111''"
    by (simp add: eval_nat_numeral)
  from shortParser_pad_idempotent [OF h] show ?thesis
    unfolding p by simp
qed

text \<open>
  C9. The normalizer is a function from strings to an identifier or no match, with no error
  branch: \<^verbatim>\<open>slice\<close> is called only on a field that \<^verbatim>\<open>find\<close> returned, and the other
  calls are string methods on the line itself. It returns no match exactly on the lines that
  have none of the three formats.
\<close>

theorem parseCardData_no_match:
  "parseCardData raw = None \<longleftrightarrow>
     \<not> delimited_match raw \<and> \<not> long_numeric_match raw \<and> \<not> short_numeric_match raw"
  by (simp add: parseCardData_unfold fullParser_None_iff[symmetric]
      mobileParser_None_iff[symmetric] shortParser_None_iff[symmetric] split: option.splits)

theorem parseCardData_no_match_witness:
  "\<not> delimited_match ''60177A0010001111'' \<and> \<not> long_numeric_match ''60177A0010001111''
   \<and> \<not> short_numeric_match ''60177A0010001111'' \<and> parseCardData ''60177A0010001111'' = None"
proof -
  have h: "\<not> delimited_match ''60177A0010001111''" "\<not> long_numeric_match ''60177A0010001111''"
    "\<not> short_numeric_match ''60177A0010001111''"
    by (simp_all add: delimited_match_def long_numeric_match_def short_numeric_match_def
        is_digit_def)
  with parseCardData_no_match [of "''60177A0010001111''"] show ?thesis by blast
qed

section \<open>Properties of device discovery\<close>

lemma truthy_None: "\<not> truthy None"
  by (simp add: truthy_def)

lemma truthy_toLowerCase: "truthy (map_option toLowerCase v) = truthy v"
  by (cases v) (auto simp: truthy_def toLowerCase_def)

lemma port_filter_ids_match:
  "port_filter
     (if truthy (vendorId config) then map_option toLowerCase (vendorId config) else None)
     (if truthy (productId config) then map_option toLowerCase (productId config) else None) p
   = ids_match config p"
  by (cases "vendorId config"; cases "productId config")
     (auto simp: port_filter_def ids_match_def truthy_def or_empty_def Let_def toLowerCase_def)

lemma filter_Cons_find: "filter P xs = p # rest \<Longrightarrow> find P xs = Some p"
  by (induction xs) (auto split: if_splits)

lemma findSerialPath_unfold:
  assumes "\<not> truthy (serialPath config)"
  shows "findSerialPath config ports =
     (let matching = filter (ids_match config) ports
      in if (truthy (vendorId config) \<or> truthy (productId config)) \<and> matching \<noteq> []
         then (if length matching > 1 then [MultipleMatchingPorts (length matching)] else [],
               Some (path (hd matching)))
         else if length ports = 1 then ([], Some (path (hd ports)))
         else ([], None))"
proof -
  have hd0: "xs \<noteq> [] \<Longrightarrow> xs ! 0 = hd xs" for xs :: "port_info list"
    by (cases xs) auto
  have len1: "length xs \<ge> 1 \<longleftrightarrow> xs \<noteq> []" for xs :: "port_info list"
    by (cases xs) auto
  have p1: "length ports = 1 \<Longrightarrow> ports ! 0 = hd ports"
    by (cases ports) auto
  show ?thesis
    using assms p1
    unfolding findSerialPath_def Let_def port_filter_ids_match len1
    by (auto simp: truthy_toLowerCase truthy_None hd0 port_filter_ids_match)
qed

text \<open>
  C4, as the code has it. With an identifier filter and no pinned serial path: when some
  enumerated port matches the filter, discovery returns the path of the first one in
  enumeration order, and logs the number of matches when there is more than one; when no port
  matches, discovery falls back to the rule without a filter and returns the path of the only
  enumerated port if exactly one port is enumerated, and no path otherwise.
\<close>

theorem findSerialPath_filter:
  assumes "\<not> truthy (serialPath config)"
    and "truthy (vendorId config) \<or> truthy (productId config)"
  shows "case filter (ids_match config) ports of
           p # rest \<Rightarrow>
             find (ids_match config) ports = Some p \<and>
             findSerialPath config ports =
               (if rest \<noteq> [] then [MultipleMatchingPorts (Suc (length rest))] else [],
                Some (path p))
         | [] \<Rightarrow>
             findSerialPath config ports =
               ([], if length ports = 1 then Some (path (hd ports)) else None)"
  using assms
  by (auto simp: findSerialPath_unfold Let_def filter_Cons_find split: list.splits)

theorem findSerialPath_filter_witness:
  "\<not> truthy (serialPath (installed_config\<lparr>vendorId := Some ''1A86'', productId := Some ''7523''\<rparr>))
   \<and> truthy (vendorId (installed_config\<lparr>vendorId := Some ''1A86'', productId := Some ''7523''\<rparr>))
   \<and> findSerialPath (installed_config\<lparr>vendorId := Some ''1A86'', productId := Some ''7523''\<rparr>)
       [\<lparr>path = ''/dev/ttyACM0'', port_vendorId = Some ''2341'', port_productId = Some ''0043''\<rparr>,
        \<lparr>path = ''/dev/ttyUSB0'', port_vendorId = Some ''1a86'', port_productId = Some ''7523''\<rparr>,
        \<lparr>path = ''/dev/ttyUSB1'', port_vendorId = Some ''1a86'', port_productId = Some ''7523''\<rparr>]
     = ([MultipleMatchingPorts 2], Some ''/dev/ttyUSB0'')"
proof -
  let ?c = "installed_config\<lparr>vendorId := Some ''1A86'', productId := Some ''7523''\<rparr>"
  let ?a = "\<lparr>path = ''/dev/ttyACM0'', port_vendorId = Some ''2341'', port_productId = Some ''0043''\<rparr>"
  let ?b = "\<lparr>path = ''/dev/ttyUSB0'', port_vendorId = Some ''1a86'', port_productId = Some ''7523''\<rparr>"
  let ?d = "\<lparr>path = ''/dev/ttyUSB1'', port_vendorId = Some ''1a86'', port_productId = Some ''7523''\<rparr>"
  have h1: "\<not> truthy (serialPath ?c)" by (simp add: installed_config_def truthy_def)
  have h2: "truthy (vendorId ?c) \<or> truthy (productId ?c)" by (simp add: truthy_def)
  have f: "filter (ids_match ?c) [?a, ?b, ?d] = [?b, ?d]"
    by (simp add: ids_match_def truthy_def or_empty_def toLowerCase_def toLowerChar_def)
  from findSerialPath_filter [OF h1 h2, of "[?a, ?b, ?d]"] f h1
  show ?thesis by (simp add: truthy_def)
qed

text \<open>
  The claim C4 as it is worded fails where it says that discovery returns no path when no
  enumerated device matches the filter: with a vendor filter and a single enumerated port of
  another vendor, the port's path is returned.
\<close>

theorem findSerialPath_filter_counterexample:
  "truthy (vendorId (installed_config\<lparr>vendorId := Some ''09d8''\<rparr>))
   \<and> \<not> truthy (serialPath (installed_config\<lparr>vendorId := Some ''09d8''\<rparr>))
   \<and> filter (ids_match (installed_config\<lparr>vendorId := Some ''09d8''\<rparr>))
       [\<lparr>path = ''/dev/ttyACM0'', port_vendorId = Some ''2341'', port_productId = Some ''0043''\<rparr>]
     = []
   \<and> snd (findSerialPath (installed_config\<lparr>vendorId := Some ''09d8''\<rparr>)
       [\<lparr>path = ''/dev/ttyACM0'', port_vendorId = Some ''2341'', port_productId = Some ''0043''\<rparr>])
     = Some ''/dev/ttyACM0''"
  by (simp add: installed_config_def ids_match_def findSerialPath_def port_filter_def
      truthy_def or_empty_def toLowerCase_def toLowerChar_def Let_def)

text \<open>
  C10. With no pinned serial path and no identifier filter, discovery logs nothing and returns
  the path of the enumerated port when exactly one port is enumerated, and no path when none
  or more than one is.
\<close>

theorem findSerialPath_no_filter:
  assumes "\<not> truthy (serialPath config)"
    and "\<not> truthy (vendorId config)" and "\<not> truthy (productId config)"
  shows "findSerialPath config ports =
           ([], if length ports = 1 then Some (path (hd ports)) else None)"
  using assms by (simp add: findSerialPath_unfold Let_def)

theorem findSerialPath_no_filter_witness:
  "findSerialPath installed_config
      [\<lparr>path = ''/dev/ttyUSB0'', port_vendorId = Some ''1a86'', port_productId = Some ''7523''\<rparr>]
     = ([], Some ''/dev/ttyUSB0'')
   \<and> findSerialPath installed_config [] = ([], None)
   \<and> findSerialPath installed_config
      [\<lparr>path = ''/dev/ttyUSB0'', port_vendorId = Some ''1a86'', port_productId = Some ''7523''\<rparr>,
       \<lparr>path = ''/dev/ttyUSB1'', port_vendorId = Some ''1a86'', port_productId = Some ''7523''\<rparr>]
     = ([], None)"
proof -
  have h: "\<not> truthy (serialPath installed_config)" "\<not> truthy (vendorId installed_config)"
    "\<not> truthy (productId installed_config)"
    by (simp_all add: installed_config_def truthy_def)
  note t = findSerialPath_no_filter [OF h]
  show ?thesis by (simp add: t)
qed

section \<open>Properties of the reconnect timer\<close>

lemma clearTimeout_inv:
  "timer_inv config st \<Longrightarrow> timers (clearTimeout (reconnectTimer st) st) = []"
  by (auto simp: timer_inv_def clearTimeout_def)

lemma clearTimeout_fields:
  "port (clearTimeout t st) = port st"
  "reconnectTimer (clearTimeout t st) = reconnectTimer st"
  "exited (clearTimeout t st) = exited st"
  by (simp_all add: clearTimeout_def)

lemma arm_reconnect_one:
  "timers st = [] \<Longrightarrow>
     timers (arm_reconnect config st) = [(next_timer st, reconnectInterval config)]
     \<and> reconnectTimer (arm_reconnect config st) = Some (next_timer st)
     \<and> port (arm_reconnect config st) = port st
     \<and> exited (arm_reconnect config st) = exited st"
  by (simp add: arm_reconnect_def setTimeout_def)

lemma fire_inv: "timer_inv config st \<Longrightarrow> timer_inv config (fire t st)"
  by (auto simp: timer_inv_def fire_def split: if_splits)

text \<open>
  However it is reached, \<^verbatim>\<open>scheduleReconnect\<close> leaves the port released and exactly one
  timer pending.
\<close>

lemma scheduleReconnect_one:
  assumes "timer_inv config st"
  shows "\<exists>t. timers (scheduleReconnect config st) = [(t, reconnectInterval config)]
           \<and> reconnectTimer (scheduleReconnect config st) = Some t
           \<and> port (scheduleReconnect config st) = None"
proof -
  let ?st1 = "if port st \<noteq> None then st\<lparr>port := None\<rparr> else st"
  have inv1: "timer_inv config ?st1" using assms by (auto simp: timer_inv_def)
  have p1: "port ?st1 = None" by auto
  let ?st2 = "clearTimeout (reconnectTimer ?st1) ?st1"
  have t2: "timers ?st2 = []" using inv1 by (rule clearTimeout_inv)
  have p2: "port ?st2 = None" using p1 by (simp only: clearTimeout_fields)
  have eq: "scheduleReconnect config st = arm_reconnect config ?st2"
    by (simp add: scheduleReconnect_def Let_def)
  from arm_reconnect_one [OF t2, of config] p2 show ?thesis
    unfolding eq by auto
qed

lemma scheduleReconnect_inv:
  "timer_inv config st \<Longrightarrow> timer_inv config (scheduleReconnect config st)"
  using scheduleReconnect_one [of config st] by (auto simp: timer_inv_def)

lemma connectScanner_inv:
  assumes "timer_inv config st"
  shows "timer_inv config (connectScanner config dev st)"
proof -
  let ?st1 = "clearTimeout (reconnectTimer st) st"
  have t1: "timers ?st1 = []" using assms by (rule clearTimeout_inv)
  show ?thesis
    using arm_reconnect_one [OF t1, of config] t1
    by (auto simp: connectScanner_def Let_def timer_inv_def)
qed

lemma connectScanner_stream_inv:
  assumes "timer_inv config st"
  shows "timer_inv config (connectScanner_stream config dev ok st)"
proof -
  let ?st1 = "clearTimeout (reconnectTimer st) st"
  have t1: "timers ?st1 = []" using assms by (rule clearTimeout_inv)
  show ?thesis
    using arm_reconnect_one [OF t1, of config] t1
    by (auto simp: connectScanner_stream_def Let_def timer_inv_def)
qed

lemma shutdown_inv: "timer_inv config st \<Longrightarrow> timer_inv config (shutdown st)"
  using clearTimeout_inv [of config st] by (simp add: shutdown_def timer_inv_def)

lemma conn_init_inv: "timer_inv config conn_init"
  by (simp add: timer_inv_def conn_init_def)

lemma conn_step_inv:
  "timer_inv config st \<Longrightarrow> conn_step config ev st = Some st' \<Longrightarrow> timer_inv config st'"
  by (cases ev)
     (auto simp: fire_inv connectScanner_inv connectScanner_stream_inv scheduleReconnect_inv
        shutdown_inv split: if_splits)

lemma reachable_inv: "reachable config st \<Longrightarrow> timer_inv config st"
proof (induction rule: reachable.induct)
  case (start dev)
  show ?case by (rule connectScanner_inv [OF conn_init_inv])
next
  case (start_stream dev ok)
  show ?case by (rule connectScanner_stream_inv [OF conn_init_inv])
next
  case (step st ev st')
  then show ?case by (auto intro: conn_step_inv)
qed

text \<open>
  C7. In every state that the connection manager reaches, at most one reconnect timer is
  pending, it is the one held in \<^verbatim>\<open>reconnectTimer\<close>, and its delay is the reconnect
  interval. A read error or a stream close in a state of the running process is a step to a
  state with the port released and exactly one pending timer, after any number of earlier
  failures.
\<close>

theorem one_pending_reconnect:
  assumes "reachable config st"
  shows "length (timers st) \<le> 1
       \<and> (\<forall>(t, d) \<in> set (timers st). reconnectTimer st = Some t \<and> d = reconnectInterval config)
       \<and> (\<not> exited st \<longrightarrow>
            (\<forall>ev \<in> {ReadError, StreamClose}.
               \<exists>st' t. conn_step config ev st = Some st' \<and> reachable config st'
                 \<and> port st' = None
                 \<and> timers st' = [(t, reconnectInterval config)]))"
proof -
  from assms have inv: "timer_inv config st" by (rule reachable_inv)
  then have a: "length (timers st) \<le> 1"
    and b: "\<forall>(t, d) \<in> set (timers st). reconnectTimer st = Some t \<and> d = reconnectInterval config"
    by (auto simp: timer_inv_def)
  have c: "\<exists>st' t. conn_step config ev st = Some st' \<and> reachable config st'
                 \<and> port st' = None \<and> timers st' = [(t, reconnectInterval config)]"
    if ne: "\<not> exited st" and ev: "ev \<in> {ReadError, StreamClose}" for ev
  proof -
    from ne ev have s: "conn_step config ev st = Some (scheduleReconnect config st)" by auto
    from reachable.step [OF assms s] have "reachable config (scheduleReconnect config st)" .
    with s scheduleReconnect_one [OF inv] show ?thesis by auto
  qed
  from a b c show ?thesis by blast
qed

theorem one_pending_reconnect_witness:
  "reachable installed_config
     (scheduleReconnect installed_config
        (scheduleReconnect installed_config
           (connectScanner installed_config (Some ''/dev/ttyUSB0'') conn_init)))
   \<and> timers (scheduleReconnect installed_config
        (scheduleReconnect installed_config
           (connectScanner installed_config (Some ''/dev/ttyUSB0'') conn_init))) = [(1, 5000)]
   \<and> length (timers (scheduleReconnect installed_config
        (scheduleReconnect installed_config
           (connectScanner installed_config (Some ''/dev/ttyUSB0'') conn_init)))) \<le> 1"
proof -
  let ?s0 = "connectScanner installed_config (Some ''/dev/ttyUSB0'') conn_init"
  let ?s1 = "scheduleReconnect installed_config ?s0"
  let ?s2 = "scheduleReconnect installed_config ?s1"
  have e0: "\<not> exited ?s0"
    by (simp add: connectScanner_def clearTimeout_def conn_init_def truthy_def Let_def)
  have r0: "reachable installed_config ?s0" by (rule reachable.start)
  have "conn_step installed_config ReadError ?s0 = Some ?s1" using e0 by simp
  from reachable.step [OF r0 this] have r1: "reachable installed_config ?s1" .
  have e1: "\<not> exited ?s1"
    using e0
    by (simp add: scheduleReconnect_def arm_reconnect_def setTimeout_def clearTimeout_def Let_def)
  have "conn_step installed_config StreamClose ?s1 = Some ?s2" using e1 by simp
  from reachable.step [OF r1 this] have r2: "reachable installed_config ?s2" .
  have t: "timers ?s2 = [(1, 5000)]"
    by (simp add: scheduleReconnect_def arm_reconnect_def setTimeout_def clearTimeout_def
        connectScanner_def conn_init_def truthy_def installed_config_def Let_def)
  from one_pending_reconnect [OF r2] have "length (timers ?s2) \<le> 1" by blast
  with r2 t show ?thesis by blast
qed

section \<open>Properties of the delivery pipeline\<close>

lemma attempts_Cons:
  "attempts (e # tr) = (if is_post e then Suc (attempts tr) else attempts tr)"
  by (simp add: attempts_def)

lemma attempts_Nil: "attempts [] = 0"
  by (simp add: attempts_def)

lemma attempts_append: "attempts (xs @ ys) = attempts xs + attempts ys"
  by (simp add: attempts_def)

lemma attempts_answer_log: "attempts (answer_log r) = 0"
  by (cases r) (simp_all add: answer_log_def attempts_def)

lemma sendToServer_unfold:
  "request_ok net \<Longrightarrow>
     sendToServer config net scan a =
       Post scan a # answer_log (answer net a) @
       (if retried (answer net a) then retry config net scan a else [])"
  by (cases "answer net a") (auto simp: sendToServer.simps retried_def answer_log_def)

lemma sendToServer_throws:
  "\<not> request_ok net \<Longrightarrow> sendToServer config net scan a = [Throws]"
  by (simp add: sendToServer.simps)

text \<open>
  Whatever the network answers, the requests from attempt number a on are bounded by the
  retry count rounded up.
\<close>

lemma attempts_bound_from:
  "attempts (sendToServer config net scan a) \<le> Suc (nat (\<lceil>sendRetries config\<rceil> - a))
   \<and> attempts (retry config net scan a) \<le> nat (\<lceil>sendRetries config\<rceil> - a)"
proof (induction "nat (\<lceil>sendRetries config\<rceil> - a)" arbitrary: a)
  case 0
  then have "\<not> of_int a < sendRetries config"
    by (simp add: less_ceiling_iff [symmetric])
  then have r: "retry config net scan a = [LogGaveUp (sendRetries config)]"
    by (simp add: retry.simps)
  show ?case
  proof (cases "request_ok net")
    case True
    then show ?thesis using r 0
      by (simp add: sendToServer_unfold attempts_Cons attempts_Nil attempts_append
          attempts_answer_log)
  next
    case False
    then show ?thesis using r
      by (simp add: sendToServer_throws attempts_Cons attempts_Nil)
  qed
next
  case (Suc n)
  then have lt: "a < \<lceil>sendRetries config\<rceil>"
    and n: "n = nat (\<lceil>sendRetries config\<rceil> - (a + 1))"
    by auto
  from lt have lt': "of_int a < sendRetries config" by (simp add: less_ceiling_iff)
  from Suc.hyps(1) [OF n]
  have ih: "attempts (sendToServer config net scan (a + 1)) \<le> Suc n"
    using n by simp
  have r: "attempts (retry config net scan a) \<le> Suc n"
    using lt' ih by (simp add: retry.simps attempts_Cons)
  show ?case
  proof (cases "request_ok net")
    case True
    then show ?thesis using r Suc.hyps(2)
      by (simp add: sendToServer_unfold attempts_Cons attempts_Nil attempts_append
          attempts_answer_log)
  next
    case False
    then show ?thesis using r Suc.hyps(2)
      by (simp add: sendToServer_throws attempts_Cons attempts_Nil)
  qed
qed

text \<open>With a whole retry count of 1 or more, no delivery writes more requests than that.\<close>

lemma attempts_within_count:
  assumes "sendRetries config = of_int n" and "1 \<le> n"
  shows "int (attempts (sendToServer config net scan 1)) \<le> n"
proof -
  from attempts_bound_from [of config net scan 1] assms(1)
  have "attempts (sendToServer config net scan 1) \<le> Suc (nat (n - 1))"
    by simp
  with assms(2) show ?thesis by linarith
qed

text \<open>
  What a delivery does when every request gets an answer after which the code retries.
\<close>

lemma all_retried_trace:
  assumes "request_ok net" and "\<forall>k. retried (answer net k)" and "a \<le> \<lceil>sendRetries config\<rceil>"
  shows "sendToServer config net scan a =
           concat (map (failing_round config net scan) [a..\<lceil>sendRetries config\<rceil> - 1])
           @ Post scan \<lceil>sendRetries config\<rceil> # answer_log (answer net \<lceil>sendRetries config\<rceil>)
           @ [LogGaveUp (sendRetries config)]"
  using assms(3)
proof (induction "nat (\<lceil>sendRetries config\<rceil> - a)" arbitrary: a)
  case 0
  then have a: "a = \<lceil>sendRetries config\<rceil>" by simp
  then have "\<not> of_int a < sendRetries config"
    by (simp add: less_ceiling_iff [symmetric])
  then show ?case
    using assms(1,2) a by (simp add: sendToServer_unfold retry.simps)
next
  case (Suc n)
  then have lt: "a < \<lceil>sendRetries config\<rceil>"
    and n: "n = nat (\<lceil>sendRetries config\<rceil> - (a + 1))"
    by auto
  from lt have lt': "of_int a < sendRetries config" by (simp add: less_ceiling_iff)
  have up: "[a..\<lceil>sendRetries config\<rceil> - 1] = a # [a + 1..\<lceil>sendRetries config\<rceil> - 1]"
    using lt by (simp add: upto_rec1)
  from Suc.hyps(1) [OF n] lt
  have ih: "sendToServer config net scan (a + 1) =
           concat (map (failing_round config net scan) [a + 1..\<lceil>sendRetries config\<rceil> - 1])
           @ Post scan \<lceil>sendRetries config\<rceil> # answer_log (answer net \<lceil>sendRetries config\<rceil>)
           @ [LogGaveUp (sendRetries config)]"
    by simp
  have "sendToServer config net scan a =
          failing_round config net scan a @ sendToServer config net scan (a + 1)"
    using assms(1,2) lt' by (simp add: sendToServer_unfold retry.simps failing_round_def)
  then show ?case
    by (simp add: ih up)
qed

lemma attempts_failing_rounds:
  "attempts (concat (map (failing_round config net scan) ks)) = length ks"
  by (induction ks)
     (simp_all add: attempts_Nil attempts_append attempts_Cons failing_round_def
        attempts_answer_log)

text \<open>
  When every request ends in a whole response with a failure status or in an error of the
  request, a retry count of 1 or more is the number of requests, rounded up when it is not
  whole, and the delivery ends with the log of the give-up. With 3 these are three requests
  and two waits of \<^verbatim>\<open>sendRetryDelay\<close>.
\<close>

lemma completed_failures_attempts:
  assumes "request_ok net" and "\<forall>k. retried (answer net k)" and "1 \<le> sendRetries config"
  shows "attempts (sendToServer config net scan 1) = nat \<lceil>sendRetries config\<rceil>"
    and "last (sendToServer config net scan 1) = LogGaveUp (sendRetries config)"
proof -
  from assms(3) have le: "1 \<le> \<lceil>sendRetries config\<rceil>"
    by (simp add: le_ceiling_iff)
  note t = all_retried_trace [OF assms(1,2) le]
  have n: "Suc (nat (\<lceil>sendRetries config\<rceil> - 1)) = nat \<lceil>sendRetries config\<rceil>"
    using le by linarith
  have "attempts (sendToServer config net scan 1) = Suc (nat (\<lceil>sendRetries config\<rceil> - 1))"
    by (simp add: t attempts_append attempts_failing_rounds attempts_Cons attempts_Nil
        attempts_answer_log)
  then show "attempts (sendToServer config net scan 1) = nat \<lceil>sendRetries config\<rceil>"
    by (simp only: n)
  show "last (sendToServer config net scan 1) = LogGaveUp (sendRetries config)"
    by (simp add: t)
qed

lemma completed_failures_three:
  assumes "request_ok net" and "\<forall>k. retried (answer net k)" and "sendRetries config = 3"
  shows "sendToServer config net scan 1 =
           Post scan 1 # answer_log (answer net 1) @
           [LogRetrying 2 3, Wait (sendRetryDelay config)] @
           Post scan 2 # answer_log (answer net 2) @
           [LogRetrying 3 3, Wait (sendRetryDelay config)] @
           Post scan 3 # answer_log (answer net 3) @ [LogGaveUp 3]"
proof -
  have c: "\<lceil>sendRetries config\<rceil> = 3" using assms(3) by simp
  have le: "1 \<le> \<lceil>sendRetries config\<rceil>" using c by simp
  have up: "[1..\<lceil>sendRetries config\<rceil> - 1] = [1, 2]"
    using c by (simp add: upto_rec1)
  show ?thesis
    unfolding all_retried_trace [OF assms(1,2) le] up
    using assms(3) c by (simp add: failing_round_def)
qed

text \<open>
  C6. A delivery whose attempts all fail is not always retried. With \<^verbatim>\<open>sendRetries\<close> 3
  and an endpoint that answers every request with the status 503 and closes the connection
  after the headers, the delivery writes one request and then does nothing: no retry, no
  second and third request, and no log of a give-up. \<^verbatim>\<open>retry\<close> is reached only from the
  \<^verbatim>\<open>end\<close> of a response and the \<^verbatim>\<open>error\<close> of the request; a response that fails after
  it has begun reaches neither.
\<close>

theorem sendToServer_truncated_response:
  "sendRetries installed_config = 3
   \<and> sendToServer installed_config
        \<lparr>request_ok = True, answer = answer_all (Truncated 503)\<rparr>
        \<lparr>scan_id = ''5b1f'', scan_data = ''000111111'',
         scan_timestamp = ''2024-01-01T00:00:00.000Z''\<rparr> 1
     = [Post \<lparr>scan_id = ''5b1f'', scan_data = ''000111111'',
              scan_timestamp = ''2024-01-01T00:00:00.000Z''\<rparr> 1]
   \<and> attempts (sendToServer installed_config
        \<lparr>request_ok = True, answer = answer_all (Truncated 503)\<rparr>
        \<lparr>scan_id = ''5b1f'', scan_data = ''000111111'',
         scan_timestamp = ''2024-01-01T00:00:00.000Z''\<rparr> 1)
     = 1"
  by (simp add: sendToServer.simps answer_all_def attempts_def installed_config_def)

section \<open>Properties of the update supervisor\<close>

lemma applyUpdate_version: "version_file (snd (applyUpdate out st)) = version_file st"
  by (cases out) (simp_all add: applyUpdate_def)

lemma applyUpdate_result: "fst (applyUpdate out st) \<longleftrightarrow> (\<exists>files. out = Applied files)"
  by (cases out) (simp_all add: applyUpdate_def)

lemma checkForUpdates_marker:
  assumes "version_file (checkForUpdates env st) \<noteq> version_file st"
  shows "(\<exists>files. outcome env = Applied files) \<and> write_ok env \<and> truthy (remote env)
       \<and> remote env \<noteq> getLocalVersion st
       \<and> version_file (checkForUpdates env st) = remote env
       \<and> upd_exited (checkForUpdates env st)"
proof -
  let ?st1 = "st\<lparr>upd_log := upd_log st @ [UpdateAvailable]\<rparr>"
  obtain ok st2 where a: "applyUpdate (outcome env) ?st1 = (ok, st2)"
    by (cases "applyUpdate (outcome env) ?st1")
  have v2: "version_file st2 = version_file st"
    using applyUpdate_version [of "outcome env" ?st1] a by simp
  have ok: "ok \<longleftrightarrow> (\<exists>files. outcome env = Applied files)"
    using applyUpdate_result [of "outcome env" ?st1] a by simp
  from assms a v2 ok show ?thesis
    by (auto simp: checkForUpdates_def Let_def split: if_splits)
qed

lemma checkForUpdates_failed:
  "outcome env = ApplyFailed files msg \<Longrightarrow>
     version_file (checkForUpdates env st) = version_file st"
  by (auto simp: checkForUpdates_def Let_def applyUpdate_def)

lemma startUpdateLoop_marker:
  assumes "version_file (startUpdateLoop env st) \<noteq> version_file st"
  shows "\<not> truthy (getLocalVersion st) \<and> truthy (remote env) \<and> write_ok env
       \<and> version_file (startUpdateLoop env st) = remote env
       \<and> src_dir (startUpdateLoop env st) = src_dir st"
  using assms by (auto simp: startUpdateLoop_def Let_def split: if_splits)

text \<open>
  C5, as the code has it. The version marker is written at two places only. An update check
  writes it after \<^verbatim>\<open>applyUpdate\<close> has replaced the source files without an error; the new
  value is the remote revision and the process exits. The start of the update loop writes it
  when no local revision can be read and the remote revision can be fetched; the source files
  are not replaced then. An update check whose download or file replacement fails leaves the
  marker as it was.
\<close>

theorem marker_written_only:
  "(version_file (upd_step ev st) \<noteq> version_file st \<longrightarrow>
      (case ev of
         IntervalTick env \<Rightarrow>
           (\<exists>files. outcome env = Applied files) \<and> write_ok env \<and> truthy (remote env)
           \<and> remote env \<noteq> getLocalVersion st
           \<and> version_file (upd_step ev st) = remote env
           \<and> upd_exited (upd_step ev st)
       | Startup env \<Rightarrow>
           \<not> truthy (getLocalVersion st) \<and> truthy (remote env) \<and> write_ok env
           \<and> version_file (upd_step ev st) = remote env
           \<and> src_dir (upd_step ev st) = src_dir st))
   \<and> (\<forall>env files msg. ev = IntervalTick env \<and> outcome env = ApplyFailed files msg \<longrightarrow>
         version_file (upd_step ev st) = version_file st)"
proof (intro conjI impI allI)
  assume ch: "version_file (upd_step ev st) \<noteq> version_file st"
  show "case ev of
         IntervalTick env \<Rightarrow>
           (\<exists>files. outcome env = Applied files) \<and> write_ok env \<and> truthy (remote env)
           \<and> remote env \<noteq> getLocalVersion st
           \<and> version_file (upd_step ev st) = remote env
           \<and> upd_exited (upd_step ev st)
       | Startup env \<Rightarrow>
           \<not> truthy (getLocalVersion st) \<and> truthy (remote env) \<and> write_ok env
           \<and> version_file (upd_step ev st) = remote env
           \<and> src_dir (upd_step ev st) = src_dir st"
  proof (cases ev)
    case (Startup env)
    with ch have ne: "\<not> upd_exited st" by (auto split: if_splits)
    with ch Startup have "version_file (startUpdateLoop env st) \<noteq> version_file st" by simp
    from startUpdateLoop_marker [OF this] Startup ne show ?thesis by simp
  next
    case (IntervalTick env)
    with ch have ne: "\<not> upd_exited st" by (auto split: if_splits)
    with ch IntervalTick have "version_file (checkForUpdates env st) \<noteq> version_file st" by simp
    from checkForUpdates_marker [OF this] IntervalTick ne show ?thesis by simp
  qed
next
  fix env :: "'a upd_env" and files msg
  assume "ev = IntervalTick env \<and> outcome env = ApplyFailed files msg"
  then show "version_file (upd_step ev st) = version_file st"
    by (auto simp: checkForUpdates_failed)
qed

theorem marker_written_only_witness:
  "version_file (upd_step
      (IntervalTick \<lparr>remote = Some ''9e1c0aa'', outcome = Applied [''index.js'', ''parsers.js''],
                     write_ok = True\<rparr>)
      \<lparr>version_file = Some ''4f2a9c1'', src_dir = [''index.js''], upd_log = [],
       upd_exited = False\<rparr>) = Some ''9e1c0aa''
   \<and> upd_exited (upd_step
      (IntervalTick \<lparr>remote = Some ''9e1c0aa'', outcome = Applied [''index.js'', ''parsers.js''],
                     write_ok = True\<rparr>)
      \<lparr>version_file = Some ''4f2a9c1'', src_dir = [''index.js''], upd_log = [],
       upd_exited = False\<rparr>)
   \<and> version_file (upd_step
      (IntervalTick \<lparr>remote = Some ''9e1c0aa'', outcome = ApplyFailed [''index.js''] ''curl'',
                     write_ok = True\<rparr>)
      \<lparr>version_file = Some ''4f2a9c1'', src_dir = [''index.js''], upd_log = [],
       upd_exited = False\<rparr>) = Some ''4f2a9c1''"
proof -
  let ?st = "\<lparr>version_file = Some ''4f2a9c1'', src_dir = [''index.js''], upd_log = [],
              upd_exited = False\<rparr>"
  let ?good = "\<lparr>remote = Some ''9e1c0aa'', outcome = Applied [''index.js'', ''parsers.js''],
                write_ok = True\<rparr>"
  let ?bad = "\<lparr>remote = Some ''9e1c0aa'', outcome = ApplyFailed [''index.js''] ''curl'',
               write_ok = True\<rparr>"
  have tr: "trim_js ''4f2a9c1'' = ''4f2a9c1''"
    by (simp add: trim_js_def is_space_def)
  have ch: "version_file (upd_step (IntervalTick ?good) ?st) \<noteq> version_file ?st"
    by (simp add: checkForUpdates_def applyUpdate_def getLocalVersion_def truthy_def Let_def tr)
  from marker_written_only [of "IntervalTick ?good" ?st] ch
  have g: "version_file (upd_step (IntervalTick ?good) ?st) = remote ?good
           \<and> upd_exited (upd_step (IntervalTick ?good) ?st)"
    by simp
  from marker_written_only [of "IntervalTick ?bad" ?st]
  have b: "version_file (upd_step (IntervalTick ?bad) ?st) = version_file ?st"
    by simp
  from g b show ?thesis by simp
qed

text \<open>
  The claim C5 as it is worded fails where it says that the marker is written at no other
  time than after a code replacement: on a first run, with no marker on disk, the start of the
  update loop records the remote revision and replaces no file.
\<close>

theorem marker_written_at_startup_counterexample:
  "upd_step
     (Startup \<lparr>remote = Some ''4f2a9c1'', outcome = ApplyFailed [''index.js''] ''unused'',
               write_ok = True\<rparr>)
     \<lparr>version_file = None, src_dir = [''index.js''], upd_log = [], upd_exited = False\<rparr>
   = \<lparr>version_file = Some ''4f2a9c1'', src_dir = [''index.js''],
      upd_log = [AutoUpdaterEnabled, VersionRecorded], upd_exited = False\<rparr>"
  by (simp add: startUpdateLoop_def getLocalVersion_def truthy_def)

end
